theory Spec2Isabelle
  imports Main
begin

section \<open>Promises.cancellable\<close>

text \<open>
  The TypeScript being modelled is \<^verbatim>\<open>Promises.cancellable(promise, timeoutOrToken, options)\<close>.
  It builds a new promise (the wrapper) whose executor arms either a timer or a
  cancellation listener and then subscribes to \<^verbatim>\<open>promise\<close> with \<^verbatim>\<open>then\<close>.
  Everything the function does afterwards happens inside one of four callbacks, which
  the JavaScript host invokes: the timer callback, the token listener, and the two
  \<^verbatim>\<open>then\<close> handlers. The callbacks are embedded as state transformers over the
  closure's variables; the host (promise states, the job queue, the timer table, the
  listener registration, the clock) is an explicit part of the state.
\<close>

subsection \<open>Values\<close>

text \<open>A promise is an object; it is referred to by its identity.\<close>

type_synonym promise_ref = nat

text \<open>
  A rejection reason is any value. \<^verbatim>\<open>class CancellationError<T> extends Error\<close> has the
  two fields \<^verbatim>\<open>promise\<close> and \<^verbatim>\<open>message\<close>; every other reason is opaque.
\<close>

datatype 'e reason =
  CancellationError (promise: promise_ref) (message: string)
| Thrown 'e

datatype ('a, 'e) settled = Fulfilled 'a | Rejected "'e reason"

text \<open>
  The state of the promise returned by \<^verbatim>\<open>new Promise((resolve, reject) => ...)\<close>.
  Calling \<^verbatim>\<open>resolve\<close> with a thenable locks the promise to that thenable: it is
  resolved, later calls are ignored, and its settlement is the thenable's.
\<close>

datatype ('a, 'e) wrapper_state =
  Pending
| Follows promise_ref
| Settled "('a, 'e) settled"

text \<open>
  What an \<^verbatim>\<open>onDidCancel(resolve, reject)\<close> callback does with the two functions it is
  handed, in the order in which it calls them (the calls made while it runs).
\<close>

datatype ('a, 'e) settle_call = CallResolve 'a | CallReject "'e reason"

text \<open>\<^verbatim>\<open>timeoutOrToken: number | CancellationToken\<close>\<close>

datatype bound = Timeout nat | Token

record ('a, 'e) options =
  cancelMessage :: "string option"
  onDidCancel :: "('a, 'e) settle_call list option"

text \<open>The subscription made by \<^verbatim>\<open>promise.then(onFulfilled, onRejected)\<close>.\<close>

datatype reaction = Unsubscribed | Subscribed | Queued | Ran

record ('a, 'e) state =
  heap :: "promise_ref \<Rightarrow> ('a, 'e) settled option"
  now :: nat
  reaction :: reaction
  timer_due :: "nat option"
  listener :: bool
  fulfilled :: bool
  timer :: bool
  wrapper :: "('a, 'e) wrapper_state"
  settlements :: nat

text \<open>
  \<open>heap\<close>, \<open>now\<close>, \<open>reaction\<close>, \<open>timer_due\<close> and \<open>listener\<close> belong to the host:
  the state of every promise (\<open>None\<close> while it is pending), the clock in milliseconds,
  the subscription to \<^verbatim>\<open>promise\<close>, the host's timer table (\<open>Some t\<close> while the timer
  set by \<^verbatim>\<open>setTimeout\<close> is armed and due at \<open>t\<close>), and whether the listener given to
  \<^verbatim>\<open>onCancellationRequested\<close> is attached. \<open>fulfilled\<close> and \<open>timer\<close> are the closure's
  two variables (\<open>timer\<close> is \<open>True\<close> when the variable is not \<^verbatim>\<open>undefined\<close>).
  \<open>wrapper\<close> is the returned promise and \<open>settlements\<close> counts how many calls of
  \<^verbatim>\<open>resolve\<close> or \<^verbatim>\<open>reject\<close> took effect on it.
\<close>

subsection \<open>The promise's resolving functions\<close>

definition resolve :: "'a \<Rightarrow> ('a, 'e) state \<Rightarrow> ('a, 'e) state" where
  "resolve v st =
     (case wrapper st of
        Pending \<Rightarrow> st\<lparr>wrapper := Settled (Fulfilled v), settlements := Suc (settlements st)\<rparr>
      | _ \<Rightarrow> st)"

definition resolve_thenable :: "promise_ref \<Rightarrow> ('a, 'e) state \<Rightarrow> ('a, 'e) state" where
  "resolve_thenable p st =
     (case wrapper st of
        Pending \<Rightarrow> st\<lparr>wrapper := Follows p, settlements := Suc (settlements st)\<rparr>
      | _ \<Rightarrow> st)"

definition reject :: "'e reason \<Rightarrow> ('a, 'e) state \<Rightarrow> ('a, 'e) state" where
  "reject r st =
     (case wrapper st of
        Pending \<Rightarrow> st\<lparr>wrapper := Settled (Rejected r), settlements := Suc (settlements st)\<rparr>
      | _ \<Rightarrow> st)"

text \<open>What a consumer awaiting the wrapper observes: \<open>None\<close> while it has not settled.\<close>

definition settlement :: "('a, 'e) state \<Rightarrow> ('a, 'e) settled option" where
  "settlement st =
     (case wrapper st of
        Pending \<Rightarrow> None
      | Follows p \<Rightarrow> heap st p
      | Settled s \<Rightarrow> Some s)"

text \<open>What a consumer awaiting the promise \<open>p\<close> itself observes.\<close>

definition await :: "('a, 'e) state \<Rightarrow> promise_ref \<Rightarrow> ('a, 'e) settled option" where
  "await st p = heap st p"

subsection \<open>The callbacks of the source\<close>

text \<open>\<^verbatim>\<open>options.cancelMessage || dflt\<close>: an absent or empty string is falsy.\<close>

definition message_or :: "string option \<Rightarrow> string \<Rightarrow> string" where
  "message_or m dflt = (case m of None \<Rightarrow> dflt | Some s \<Rightarrow> if s = [] then dflt else s)"

fun run_calls :: "('a, 'e) settle_call list \<Rightarrow> ('a, 'e) state \<Rightarrow> ('a, 'e) state" where
  "run_calls [] st = st"
| "run_calls (CallResolve v # cs) st = run_calls cs (resolve v st)"
| "run_calls (CallReject r # cs) st = run_calls cs (reject r st)"

text \<open>The body shared by the timer callback and the listener (lines 27-31 and 37-41).\<close>

definition cancel :: "promise_ref \<Rightarrow> ('a, 'e) options \<Rightarrow> string \<Rightarrow> ('a, 'e) state \<Rightarrow> ('a, 'e) state" where
  "cancel p opts dflt st =
     (case onDidCancel opts of
        Some cs \<Rightarrow> run_calls cs st
      | None \<Rightarrow> reject (CancellationError p (message_or (cancelMessage opts) dflt)) st)"

definition on_timeout :: "promise_ref \<Rightarrow> ('a, 'e) options \<Rightarrow> ('a, 'e) state \<Rightarrow> ('a, 'e) state" where
  "on_timeout p opts st = cancel p opts ''TIMED OUT'' st"

definition on_cancellation_requested ::
    "promise_ref \<Rightarrow> ('a, 'e) options \<Rightarrow> ('a, 'e) state \<Rightarrow> ('a, 'e) state" where
  "on_cancellation_requested p opts st =
     (if fulfilled st then st else cancel p opts ''CANCELLED'' st)"

text \<open>\<^verbatim>\<open>clearTimeout(timer)\<close> under \<^verbatim>\<open>if (timer !== undefined)\<close>.\<close>

definition clear_timer :: "('a, 'e) state \<Rightarrow> ('a, 'e) state" where
  "clear_timer st = (if timer st then st\<lparr>timer_due := None\<rparr> else st)"

definition on_fulfilled :: "promise_ref \<Rightarrow> ('a, 'e) state \<Rightarrow> ('a, 'e) state" where
  "on_fulfilled p st = resolve_thenable p (clear_timer (st\<lparr>fulfilled := True\<rparr>))"

definition on_rejected :: "'e reason \<Rightarrow> ('a, 'e) state \<Rightarrow> ('a, 'e) state" where
  "on_rejected ex st = reject ex (clear_timer (st\<lparr>fulfilled := True\<rparr>))"

subsection \<open>The executor\<close>

text \<open>
  \<open>cancellable h t p b\<close> is the state right after the call returns, made at time \<open>t\<close>
  in a host whose promises are in the states \<open>h\<close>. A promise that is already settled
  when \<^verbatim>\<open>then\<close> is called has its handler queued at once.
\<close>

definition cancellable ::
    "(promise_ref \<Rightarrow> ('a, 'e) settled option) \<Rightarrow> nat \<Rightarrow> promise_ref \<Rightarrow> bound \<Rightarrow> ('a, 'e) state" where
  "cancellable h t p b =
     \<lparr>heap = h, now = t,
      reaction = (if h p = None then Subscribed else Queued),
      timer_due = (case b of Timeout d \<Rightarrow> Some (t + d) | Token \<Rightarrow> None),
      listener = (case b of Timeout d \<Rightarrow> False | Token \<Rightarrow> True),
      fulfilled = False,
      timer = (case b of Timeout d \<Rightarrow> True | Token \<Rightarrow> False),
      wrapper = Pending, settlements = 0\<rparr>"

subsection \<open>The host\<close>

text \<open>
  What can happen after the call, one event at a time:
  \<^item> \<open>OpSettles s\<close>: the operation behind \<^verbatim>\<open>promise\<close> settles to \<open>s\<close> (a promise settles at
    most once, so this does nothing to a settled one); its handler is queued, not run;
  \<^item> \<open>Checkpoint\<close>: the host runs the queued jobs, here the \<^verbatim>\<open>then\<close> handler;
  \<^item> \<open>Advance n\<close>: \<open>n\<close> milliseconds pass;
  \<^item> \<open>TimerFires\<close>: the host starts a timer task; queued jobs run before any task, and
    the timer's callback runs only if the timer is still armed and due;
  \<^item> \<open>CancelRequested\<close>: cancellation is requested on the token; attached listeners are
    called synchronously, before any queued job.
\<close>

datatype ('a, 'e) event =
  OpSettles "('a, 'e) settled"
| Checkpoint
| Advance nat
| TimerFires
| CancelRequested

definition checkpoint :: "promise_ref \<Rightarrow> ('a, 'e) state \<Rightarrow> ('a, 'e) state" where
  "checkpoint p st =
     (if reaction st = Queued then
        (case heap st p of
           Some (Fulfilled v) \<Rightarrow> on_fulfilled p (st\<lparr>reaction := Ran\<rparr>)
         | Some (Rejected ex) \<Rightarrow> on_rejected ex (st\<lparr>reaction := Ran\<rparr>)
         | None \<Rightarrow> st)
      else st)"

definition op_settles :: "promise_ref \<Rightarrow> ('a, 'e) settled \<Rightarrow> ('a, 'e) state \<Rightarrow> ('a, 'e) state" where
  "op_settles p s st =
     (if heap st p = None then
        st\<lparr>heap := (heap st)(p := Some s),
           reaction := (if reaction st = Subscribed then Queued else reaction st)\<rparr>
      else st)"

definition timer_fires :: "promise_ref \<Rightarrow> ('a, 'e) options \<Rightarrow> ('a, 'e) state \<Rightarrow> ('a, 'e) state" where
  "timer_fires p opts st =
     (let st' = checkpoint p st in
      case timer_due st' of
        None \<Rightarrow> st'
      | Some t \<Rightarrow> if t \<le> now st' then on_timeout p opts (st'\<lparr>timer_due := None\<rparr>) else st')"

definition cancel_requested :: "promise_ref \<Rightarrow> ('a, 'e) options \<Rightarrow> ('a, 'e) state \<Rightarrow> ('a, 'e) state" where
  "cancel_requested p opts st =
     (if listener st then on_cancellation_requested p opts st else st)"

fun step :: "promise_ref \<Rightarrow> ('a, 'e) options \<Rightarrow> ('a, 'e) state \<Rightarrow> ('a, 'e) event \<Rightarrow> ('a, 'e) state" where
  "step p opts st (OpSettles s) = op_settles p s st"
| "step p opts st Checkpoint = checkpoint p st"
| "step p opts st (Advance n) = st\<lparr>now := now st + n\<rparr>"
| "step p opts st TimerFires = timer_fires p opts st"
| "step p opts st CancelRequested = cancel_requested p opts st"

definition run :: "promise_ref \<Rightarrow> ('a, 'e) options \<Rightarrow> ('a, 'e) state \<Rightarrow> ('a, 'e) event list \<Rightarrow> ('a, 'e) state" where
  "run p opts st es = foldl (step p opts) st es"

section \<open>Hovers\<close>

text \<open>
  The second source file is \<^verbatim>\<open>src/hovers/hovers.ts\<close>. Embedded here are the two
  enrichment lookups \<^verbatim>\<open>getAutoLinkedIssues\<close> and \<^verbatim>\<open>getPullRequestForCommit\<close> and the
  part of \<^verbatim>\<open>detailsMessage\<close> that awaits them. An \<^verbatim>\<open>async\<close> function is a function to
  \<open>reason + value\<close>: \<open>Inl\<close> is the rejection of the promise it returns, \<open>Inr\<close> its
  value. The lookups also return the list of calls they made to their collaborators, in
  the order in which they made them. Logging has no effect on the result and is left out.
\<close>

subsection \<open>Data\<close>

text \<open>
  Of a remote and its provider the source reads \<^verbatim>\<open>default\<close>, \<^verbatim>\<open>provider\<close>,
  \<^verbatim>\<open>hasApi()\<close> and \<^verbatim>\<open>maybeConnected\<close> (a boolean or \<^verbatim>\<open>undefined\<close>); the names identify
  the objects. Of a commit it reads the five fields below.
\<close>

record provider =
  provider_name :: string
  hasApi :: bool
  maybeConnected :: "bool option"

record remote =
  remote_name :: string
  default :: bool
  provider :: "provider option"

record commit =
  repoPath :: string
  ref :: string
  email :: string
  commit_message :: string
  isUncommitted :: bool

text \<open>
  The map returned by \<^verbatim>\<open>getIssueLinks\<close>: each value is an issue or a
  \<^verbatim>\<open>Promises.CancellationError\<close> (with its \<^verbatim>\<open>promise\<close> and its message) for a query that
  timed out. A JavaScript \<^verbatim>\<open>Map\<close> keeps insertion order: an association list.
\<close>

datatype 'i autolink = Issue 'i | Cancelled promise_ref string

type_synonym 'i autolinks = "(string \<times> 'i autolink) list"

text \<open>
  \<^verbatim>\<open>Container.config.hovers\<close>: \<^verbatim>\<open>autolinks.enabled\<close>, \<^verbatim>\<open>autolinks.enhanced\<close>,
  \<^verbatim>\<open>pullRequests.enabled\<close> and \<^verbatim>\<open>detailsMarkdownFormat\<close>.
\<close>

record hovers_config =
  autolinks_enabled :: bool
  autolinks_enhanced :: bool
  pullRequests_enabled :: bool
  detailsMarkdownFormat :: string

text \<open>The calls a lookup can make, with their arguments (the last one is the timeout).\<close>

datatype call =
  GetIssueLinks string remote nat
| IsConnected provider
| GetPullRequestForCommit string provider nat

text \<open>
  What \<^verbatim>\<open>getPullRequestForCommit\<close> returns: \<^verbatim>\<open>undefined\<close>, the remote, the pull request,
  or the error it caught.
\<close>

datatype ('r, 'e) pull_request_or_remote =
  Undefined
| Remote remote
| PullRequest 'r
| Error "'e reason"

text \<open>The options object \<^verbatim>\<open>detailsMessage\<close> passes to \<^verbatim>\<open>CommitFormatter.fromTemplate\<close>.\<close>

record ('i, 'r, 'e, 'u, 'p) details_options =
  annotationType :: "string option"
  autolinkedIssues :: "'i autolinks option"
  dateFormat :: string
  line :: nat
  markdown :: bool
  pullRequestOrRemote :: "('r, 'e) pull_request_or_remote"
  presence :: "'p option"
  previousLineDiffUris :: "'u option"
  remotes :: "remote list"

record markdown_string =
  markdown_value :: string
  isTrusted :: bool

text \<open>
  The collaborators, none of which is part of the two source files; they are parameters
  of the model. \<open>has\<close> is \<^verbatim>\<open>CommitFormatter.has(format, ...tokens)\<close>; \<open>debugging\<close> is
  \<^verbatim>\<open>Logger.level === TraceLevel.Debug || Logger.isDebugging\<close>; \<open>getIssueLinks\<close> is
  \<^verbatim>\<open>Container.autolinks.getIssueLinks\<close>; \<open>isConnected\<close> is the provider's method
  \<^verbatim>\<open>isConnected()\<close>; \<open>git_getPullRequestForCommit\<close> is
  \<^verbatim>\<open>Container.git.getPullRequestForCommit\<close>; \<open>getRemotes\<close> is \<^verbatim>\<open>Container.git.getRemotes\<close>;
  \<open>getPreviousLineDiffUris\<close> is the commit's method of that name; \<open>maybeGetPresence\<close> is
  \<^verbatim>\<open>Container.vsls.maybeGetPresence\<close>; \<open>fromTemplate\<close> is
  \<^verbatim>\<open>CommitFormatter.fromTemplate\<close>. Every asynchronous one may reject.
\<close>

record ('i, 'r, 'e, 'u, 'p) container =
  config :: hovers_config
  has :: "string \<Rightarrow> string list \<Rightarrow> bool"
  debugging :: bool
  getIssueLinks :: "string \<Rightarrow> remote \<Rightarrow> nat \<Rightarrow> 'e reason + 'i autolinks option"
  isConnected :: "provider \<Rightarrow> 'e reason + bool"
  git_getPullRequestForCommit :: "string \<Rightarrow> provider \<Rightarrow> nat \<Rightarrow> 'e reason + 'r option"
  getRemotes :: "string \<Rightarrow> 'e reason + remote list"
  getPreviousLineDiffUris :: "commit \<Rightarrow> nat \<Rightarrow> 'e reason + 'u option"
  maybeGetPresence :: "string \<Rightarrow> 'e reason + 'p option"
  fromTemplate :: "string \<Rightarrow> commit \<Rightarrow> ('i, 'r, 'e, 'u, 'p) details_options \<Rightarrow> string"

subsection \<open>The lookups\<close>

text \<open>\<^verbatim>\<open>ex instanceof Promises.CancellationError\<close>\<close>

fun is_CancellationError :: "'e reason \<Rightarrow> bool" where
  "is_CancellationError (CancellationError p m) = True"
| "is_CancellationError (Thrown e) = False"

text \<open>\<^verbatim>\<open>remotes.find(r => r.default && r.provider != null)\<close>\<close>

definition default_remote :: "remote list \<Rightarrow> remote option" where
  "default_remote rs = find (\<lambda>r. default r \<and> provider r \<noteq> None) rs"

text \<open>
  \<^verbatim>\<open>Iterables.filterMap(autolinkedIssues.values(), issue => issue instanceof
  Promises.CancellationError ? issue.promise : undefined)\<close>
\<close>

definition timeouts_of :: "'i autolinks \<Rightarrow> promise_ref list" where
  "timeouts_of issues =
     List.map_filter (\<lambda>issue. case issue of Cancelled p m \<Rightarrow> Some p | Issue i \<Rightarrow> None)
       (map snd issues)"

definition getAutoLinkedIssues ::
    "('i, 'r, 'e, 'u, 'p) container \<Rightarrow> string \<Rightarrow> remote list
       \<Rightarrow> call list \<times> ('e reason + 'i autolinks option)" where
  "getAutoLinkedIssues c msg rs =
     (if \<not> autolinks_enabled (config c) \<or> \<not> autolinks_enhanced (config c)
         \<or> \<not> has c (detailsMarkdownFormat (config c)) [''message'']
      then ([], Inr None)
      else
        (case default_remote rs of
           None \<Rightarrow> ([], Inr None)
         | Some remote \<Rightarrow>
             (let timeout = 250 in
              ([GetIssueLinks msg remote timeout],
               (case getIssueLinks c msg remote timeout of
                  Inr issues \<Rightarrow>
                    (if issues \<noteq> None \<and> debugging c
                     then
                       (let timeouts = timeouts_of (the issues) in
                        if length timeouts \<noteq> 0 then Inr issues else Inr issues)
                     else Inr issues)
                | Inl ex \<Rightarrow> Inr None)))))"

text \<open>
  The \<^verbatim>\<open>try\<close> block of \<^verbatim>\<open>getPullRequestForCommit\<close> with its \<^verbatim>\<open>catch\<close> (lines
  290-306): a caught \<^verbatim>\<open>CancellationError\<close> is returned, any other error gives
  \<^verbatim>\<open>undefined\<close>.
\<close>

definition lookup_pull_request ::
    "('i, 'r, 'e, 'u, 'p) container \<Rightarrow> string \<Rightarrow> provider
       \<Rightarrow> call list \<times> ('e reason + ('r, 'e) pull_request_or_remote)" where
  "lookup_pull_request c rf prov =
     ([GetPullRequestForCommit rf prov 250],
      (case git_getPullRequestForCommit c rf prov 250 of
         Inr pr \<Rightarrow> Inr (case pr of None \<Rightarrow> Undefined | Some v \<Rightarrow> PullRequest v)
       | Inl ex \<Rightarrow> if is_CancellationError ex then Inr (Error ex) else Inr Undefined))"

text \<open>
  \<^verbatim>\<open>provider.maybeConnected ?? (await provider.isConnected())\<close> calls \<^verbatim>\<open>isConnected()\<close>
  only when \<^verbatim>\<open>maybeConnected\<close> is \<^verbatim>\<open>undefined\<close>; the call stands before the \<^verbatim>\<open>try\<close>
  block, so its rejection is the lookup's rejection.
\<close>

definition getPullRequestForCommit ::
    "('i, 'r, 'e, 'u, 'p) container \<Rightarrow> string \<Rightarrow> remote list
       \<Rightarrow> call list \<times> ('e reason + ('r, 'e) pull_request_or_remote)" where
  "getPullRequestForCommit c rf rs =
     (if \<not> pullRequests_enabled (config c)
         \<or> \<not> has c (detailsMarkdownFormat (config c))
               [''pullRequest'', ''pullRequestAgo'', ''pullRequestAgoOrDate'',
                ''pullRequestDate'', ''pullRequestState'']
      then ([], Inr Undefined)
      else
        (case default_remote rs of
           None \<Rightarrow> ([], Inr Undefined)
         | Some remote \<Rightarrow>
             (case provider remote of
                None \<Rightarrow> ([], Inr Undefined)
              | Some prov \<Rightarrow>
                  if \<not> hasApi prov then ([], Inr Undefined)
                  else
                    (case maybeConnected prov of
                       Some connected \<Rightarrow>
                         if \<not> connected then ([], Inr (Remote remote))
                         else lookup_pull_request c rf prov
                     | None \<Rightarrow>
                         (case isConnected c prov of
                            Inl ex \<Rightarrow> ([IsConnected prov], Inl ex)
                          | Inr connected \<Rightarrow>
                              if \<not> connected then ([IsConnected prov], Inr (Remote remote))
                              else (IsConnected prov # fst (lookup_pull_request c rf prov),
                                    snd (lookup_pull_request c rf prov)))))))"

subsection \<open>The round\<close>

text \<open>
  \<^verbatim>\<open>Promise.all\<close> over the four promises of \<^verbatim>\<open>detailsMessage\<close>: the tuple of their
  values when all of them fulfil, and otherwise the rejection of the one that rejects
  first in time. The order in which the promises settle is the host's: \<open>order\<close> lists
  their indices in the array (0 to 3) from the first to settle to the last, and a promise
  it does not list settles after the listed ones, in array order.
\<close>

definition rejection :: "'e + 'a \<Rightarrow> 'e option" where
  "rejection r = (case r of Inl e \<Rightarrow> Some e | Inr v \<Rightarrow> None)"

definition first_rejection :: "nat list \<Rightarrow> 'e option list \<Rightarrow> 'e option" where
  "first_rejection order rs =
     (case List.map_filter (\<lambda>i. if i < length rs then rs ! i else None) order
             @ List.map_filter (\<lambda>r. r) rs of
        [] \<Rightarrow> None
      | e # es \<Rightarrow> Some e)"

definition promise_all ::
    "nat list \<Rightarrow> 'e + 'a \<Rightarrow> 'e + 'b \<Rightarrow> 'e + 'c \<Rightarrow> 'e + 'd \<Rightarrow> 'e + ('a \<times> 'b \<times> 'c \<times> 'd)" where
  "promise_all order a b c d =
     (case first_rejection order [rejection a, rejection b, rejection c, rejection d] of
        Some e \<Rightarrow> Inl e
      | None \<Rightarrow>
          (case a of Inl e \<Rightarrow> Inl e | Inr w \<Rightarrow>
           (case b of Inl e \<Rightarrow> Inl e | Inr x \<Rightarrow>
            (case c of Inl e \<Rightarrow> Inl e | Inr y \<Rightarrow>
             (case d of Inl e \<Rightarrow> Inl e | Inr z \<Rightarrow> Inr (w, x, y, z))))))"

text \<open>
  \<^verbatim>\<open>detailsMessage\<close> up to the options object it builds (lines 152-175); the four
  promises are all created before the combined await, which settles them in the
  \<open>order\<close> given.
\<close>

definition detailsOptions ::
    "nat list \<Rightarrow> ('i, 'r, 'e, 'u, 'p) container \<Rightarrow> commit \<Rightarrow> nat \<Rightarrow> string option \<Rightarrow> string option
       \<Rightarrow> 'e reason + ('i, 'r, 'e, 'u, 'p) details_options" where
  "detailsOptions order c commit editorLine dateFormat0 annotationType0 =
     (let dateFormat1 = (case dateFormat0 of None \<Rightarrow> ''MMMM Do, YYYY h:mma'' | Some f \<Rightarrow> f) in
      case getRemotes c (repoPath commit) of
        Inl ex \<Rightarrow> Inl ex
      | Inr rs \<Rightarrow>
          (case promise_all order
                  (if isUncommitted commit then getPreviousLineDiffUris c commit editorLine
                   else Inr None)
                  (snd (getAutoLinkedIssues c (commit_message commit) rs))
                  (snd (getPullRequestForCommit c (ref commit) rs))
                  (case maybeGetPresence c (email commit) of Inl reason \<Rightarrow> Inr None | Inr v \<Rightarrow> Inr v)
           of
             Inl ex \<Rightarrow> Inl ex
           | Inr (previousLineDiffUris1, autolinkedIssues1, pr, presence1) \<Rightarrow>
               Inr \<lparr>annotationType = annotationType0,
                    autolinkedIssues = autolinkedIssues1,
                    dateFormat = dateFormat1,
                    line = editorLine,
                    markdown = True,
                    pullRequestOrRemote = pr,
                    presence = presence1,
                    previousLineDiffUris = previousLineDiffUris1,
                    remotes = rs\<rparr>))"

definition detailsMessage ::
    "nat list \<Rightarrow> ('i, 'r, 'e, 'u, 'p) container \<Rightarrow> commit \<Rightarrow> nat \<Rightarrow> string option \<Rightarrow> string option
       \<Rightarrow> 'e reason + markdown_string" where
  "detailsMessage order c commit editorLine dateFormat0 annotationType0 =
     (case detailsOptions order c commit editorLine dateFormat0 annotationType0 of
        Inl ex \<Rightarrow> Inl ex
      | Inr opts \<Rightarrow>
          Inr \<lparr>markdown_value = fromTemplate c (detailsMarkdownFormat (config c)) commit opts,
               isTrusted = True\<rparr>)"

section \<open>Notions used to state the properties\<close>

text \<open>
  The default reason text of the branch taken by
  \<^verbatim>\<open>typeof timeoutOrToken === 'number'\<close>.
\<close>

definition default_message :: "bound \<Rightarrow> string" where
  "default_message b = (case b of Timeout d \<Rightarrow> ''TIMED OUT'' | Token \<Rightarrow> ''CANCELLED'')"

text \<open>What a run of \<^verbatim>\<open>onDidCancel\<close> decides on a pending promise: its first call.\<close>

fun decision :: "('a, 'e) settle_call list \<Rightarrow> ('a, 'e) settled option" where
  "decision [] = None"
| "decision (CallResolve v # cs) = Some (Fulfilled v)"
| "decision (CallReject r # cs) = Some (Rejected r)"

text \<open>The events that can run the bound's callback, and the event that settles the operation.\<close>

fun bound_event :: "('a, 'e) event \<Rightarrow> bool" where
  "bound_event TimerFires = True"
| "bound_event CancelRequested = True"
| "bound_event _ = False"

fun settle_event :: "('a, 'e) event \<Rightarrow> bool" where
  "settle_event (OpSettles s) = True"
| "settle_event _ = False"

text \<open>
  Three invariants: \<open>reach_inv\<close> holds in every state reached from a call of
  \<^verbatim>\<open>cancellable\<close> at time \<open>t\<close>; \<open>default_inv\<close> holds there when no \<^verbatim>\<open>onDidCancel\<close> is
  given; \<open>pre_inv\<close> holds as long as no event has run the bound's callback.
\<close>

definition reach_inv :: "promise_ref \<Rightarrow> bound \<Rightarrow> nat \<Rightarrow> ('a, 'e) state \<Rightarrow> bool" where
  "reach_inv p b t st \<longleftrightarrow>
     (wrapper st = Pending \<longleftrightarrow> settlements st = 0) \<and> settlements st \<le> 1
   \<and> (\<forall>q. wrapper st = Follows q \<longrightarrow> q = p \<and> (\<exists>v. heap st p = Some (Fulfilled v)))
   \<and> (fulfilled st \<longleftrightarrow> reaction st = Ran)
   \<and> (reaction st = Ran \<longrightarrow> wrapper st \<noteq> Pending \<and> timer_due st = None)
   \<and> (reaction st = Subscribed \<longleftrightarrow> heap st p = None)
   \<and> reaction st \<noteq> Unsubscribed
   \<and> (timer st \<longleftrightarrow> b \<noteq> Token) \<and> (listener st \<longleftrightarrow> b = Token)
   \<and> t \<le> now st
   \<and> (\<forall>x. timer_due st = Some x \<longrightarrow> t \<le> x \<and> b = Timeout (x - t))"

definition default_inv :: "promise_ref \<Rightarrow> bound \<Rightarrow> ('a, 'e) options \<Rightarrow> ('a, 'e) state \<Rightarrow> bool" where
  "default_inv p b opts st \<longleftrightarrow>
     (\<forall>s. wrapper st = Settled s \<longrightarrow>
        (\<exists>r. s = Rejected r \<and>
           (heap st p = Some (Rejected r) \<or>
            r = CancellationError p (message_or (cancelMessage opts) (default_message b)))))
   \<and> (b \<noteq> Token \<and> timer_due st = None \<longrightarrow> wrapper st \<noteq> Pending)"

definition pre_inv :: "promise_ref \<Rightarrow> bound \<Rightarrow> nat \<Rightarrow> ('a, 'e) state \<Rightarrow> bool" where
  "pre_inv p b t st \<longleftrightarrow>
     (reaction st \<noteq> Ran \<longrightarrow> wrapper st = Pending \<and> (\<forall>d. b = Timeout d \<longrightarrow> timer_due st = Some (t + d)))
   \<and> (reaction st = Ran \<longrightarrow> settlement st = heap st p)"

text \<open>The tokens \<^verbatim>\<open>getPullRequestForCommit\<close> looks for in the details format.\<close>

definition pull_request_fields :: "string list" where
  "pull_request_fields =
     [''pullRequest'', ''pullRequestAgo'', ''pullRequestAgoOrDate'',
      ''pullRequestDate'', ''pullRequestState'']"

fun pull_request_call :: "call \<Rightarrow> bool" where
  "pull_request_call (GetPullRequestForCommit rf prov t) = True"
| "pull_request_call _ = False"

subsection \<open>Example data\<close>

definition example_provider :: provider where
  "example_provider = \<lparr>provider_name = ''github'', hasApi = True, maybeConnected = Some True\<rparr>"

definition example_remote :: remote where
  "example_remote = \<lparr>remote_name = ''origin'', default = True, provider = Some example_provider\<rparr>"

definition example_config :: hovers_config where
  "example_config =
     \<lparr>autolinks_enabled = True, autolinks_enhanced = True, pullRequests_enabled = True,
      detailsMarkdownFormat = ''${message} ${pullRequest}''\<rparr>"

definition example_container :: "(nat, nat, nat, nat, nat) container" where
  "example_container =
     \<lparr>config = example_config,
      has = (\<lambda>fmt fields. True),
      debugging = True,
      getIssueLinks = (\<lambda>msg rm t. Inr (Some [(''#1'', Issue 1), (''#2'', Cancelled 5 ''TIMED OUT'')])),
      isConnected = (\<lambda>prov. Inr True),
      git_getPullRequestForCommit = (\<lambda>rf prov t. Inl (CancellationError 9 ''TIMED OUT'')),
      getRemotes = (\<lambda>path. Inr [example_remote]),
      getPreviousLineDiffUris = (\<lambda>cm ln. Inr None),
      maybeGetPresence = (\<lambda>addr. Inr None),
      fromTemplate = (\<lambda>fmt cm opts. [])\<rparr>"





section \<open>Properties of Promises.cancellable\<close>

subsection \<open>What the resolving functions change\<close>

lemma resolve_fields [simp]:
  "heap (resolve v st) = heap st" "now (resolve v st) = now st"
  "reaction (resolve v st) = reaction st" "timer_due (resolve v st) = timer_due st"
  "listener (resolve v st) = listener st" "fulfilled (resolve v st) = fulfilled st"
  "timer (resolve v st) = timer st"
  "wrapper (resolve v st) = (if wrapper st = Pending then Settled (Fulfilled v) else wrapper st)"
  "settlements (resolve v st) = (if wrapper st = Pending then Suc (settlements st) else settlements st)"
  by (simp_all add: resolve_def split: wrapper_state.splits)

lemma reject_fields [simp]:
  "heap (reject r st) = heap st" "now (reject r st) = now st"
  "reaction (reject r st) = reaction st" "timer_due (reject r st) = timer_due st"
  "listener (reject r st) = listener st" "fulfilled (reject r st) = fulfilled st"
  "timer (reject r st) = timer st"
  "wrapper (reject r st) = (if wrapper st = Pending then Settled (Rejected r) else wrapper st)"
  "settlements (reject r st) = (if wrapper st = Pending then Suc (settlements st) else settlements st)"
  by (simp_all add: reject_def split: wrapper_state.splits)

lemma resolve_thenable_fields [simp]:
  "heap (resolve_thenable q st) = heap st" "now (resolve_thenable q st) = now st"
  "reaction (resolve_thenable q st) = reaction st" "timer_due (resolve_thenable q st) = timer_due st"
  "listener (resolve_thenable q st) = listener st" "fulfilled (resolve_thenable q st) = fulfilled st"
  "timer (resolve_thenable q st) = timer st"
  "wrapper (resolve_thenable q st) = (if wrapper st = Pending then Follows q else wrapper st)"
  "settlements (resolve_thenable q st) = (if wrapper st = Pending then Suc (settlements st) else settlements st)"
  by (simp_all add: resolve_thenable_def split: wrapper_state.splits)

lemma clear_timer_fields [simp]:
  "heap (clear_timer st) = heap st" "now (clear_timer st) = now st"
  "reaction (clear_timer st) = reaction st"
  "timer_due (clear_timer st) = (if timer st then None else timer_due st)"
  "listener (clear_timer st) = listener st" "fulfilled (clear_timer st) = fulfilled st"
  "timer (clear_timer st) = timer st" "wrapper (clear_timer st) = wrapper st"
  "settlements (clear_timer st) = settlements st"
  by (simp_all add: clear_timer_def)

lemma run_calls_fields [simp]:
  "heap (run_calls cs st) = heap st" "now (run_calls cs st) = now st"
  "reaction (run_calls cs st) = reaction st" "timer_due (run_calls cs st) = timer_due st"
  "listener (run_calls cs st) = listener st" "fulfilled (run_calls cs st) = fulfilled st"
  "timer (run_calls cs st) = timer st"
  by (induction cs st rule: run_calls.induct; simp)+

subsection \<open>The reachable states\<close>

lemma reach_invD:
  assumes "reach_inv p b t st"
  shows "(wrapper st = Pending) = (settlements st = 0)"
    and "settlements st \<le> 1"
    and "wrapper st = Follows q \<Longrightarrow> q = p"
    and "wrapper st = Follows q \<Longrightarrow> \<exists>v. heap st p = Some (Fulfilled v)"
    and "fulfilled st = (reaction st = Ran)"
    and "reaction st = Ran \<Longrightarrow> wrapper st \<noteq> Pending"
    and "reaction st = Ran \<Longrightarrow> timer_due st = None"
    and "(reaction st = Subscribed) = (heap st p = None)"
    and "timer st = (b \<noteq> Token)"
    and "listener st = (b = Token)"
    and "t \<le> now st"
    and "timer_due st = Some x \<Longrightarrow> t \<le> x \<and> b = Timeout (x - t)"
  using assms by (auto simp: reach_inv_def)

lemma reach_inv_init: "reach_inv p b t (cancellable h t p b)"
  by (auto simp: reach_inv_def cancellable_def split: bound.splits)

lemma resolve_inv: "reach_inv p b t st \<Longrightarrow> reach_inv p b t (resolve v st)"
  by (auto simp: reach_inv_def)

lemma reject_inv: "reach_inv p b t st \<Longrightarrow> reach_inv p b t (reject r st)"
  by (auto simp: reach_inv_def)

lemma run_calls_inv: "reach_inv p b t st \<Longrightarrow> reach_inv p b t (run_calls cs st)"
  by (induction cs st rule: run_calls.induct) (simp_all add: resolve_inv reject_inv)

lemma cancel_inv: "reach_inv p b t st \<Longrightarrow> reach_inv p b t (cancel p opts d st)"
  by (simp add: cancel_def run_calls_inv reject_inv split: option.splits)

lemma on_fulfilled_inv:
  "reach_inv p b t st \<Longrightarrow> reaction st = Queued \<Longrightarrow> heap st p = Some (Fulfilled v) \<Longrightarrow>
   reach_inv p b t (on_fulfilled p (st\<lparr>reaction := Ran\<rparr>))"
  by (auto simp: reach_inv_def on_fulfilled_def)

lemma on_rejected_inv:
  "reach_inv p b t st \<Longrightarrow> reaction st = Queued \<Longrightarrow>
   reach_inv p b t (on_rejected ex (st\<lparr>reaction := Ran\<rparr>))"
  by (auto simp: reach_inv_def on_rejected_def)

lemma checkpoint_inv: "reach_inv p b t st \<Longrightarrow> reach_inv p b t (checkpoint p st)"
  by (simp add: checkpoint_def on_fulfilled_inv on_rejected_inv split: option.splits settled.splits)

lemma op_settles_inv: "reach_inv p b t st \<Longrightarrow> reach_inv p b t (op_settles p s st)"
  by (auto simp: reach_inv_def op_settles_def)

lemma timer_due_upd_inv: "reach_inv p b t st \<Longrightarrow> reach_inv p b t (st\<lparr>timer_due := None\<rparr>)"
  by (auto simp: reach_inv_def)

lemma timer_fires_inv: "reach_inv p b t st \<Longrightarrow> reach_inv p b t (timer_fires p opts st)"
  by (simp add: timer_fires_def Let_def on_timeout_def cancel_inv timer_due_upd_inv checkpoint_inv
           split: option.splits)

lemma cancel_requested_inv: "reach_inv p b t st \<Longrightarrow> reach_inv p b t (cancel_requested p opts st)"
  by (simp add: cancel_requested_def on_cancellation_requested_def cancel_inv)

lemma now_upd_inv: "reach_inv p b t st \<Longrightarrow> reach_inv p b t (st\<lparr>now := now st + n\<rparr>)"
  by (auto simp: reach_inv_def)

lemma step_inv: "reach_inv p b t st \<Longrightarrow> reach_inv p b t (step p opts st e)"
  by (cases e) (simp_all add: op_settles_inv checkpoint_inv now_upd_inv timer_fires_inv cancel_requested_inv)

lemma run_inv: "reach_inv p b t st \<Longrightarrow> reach_inv p b t (run p opts st es)"
  unfolding run_def by (induction es arbitrary: st) (simp_all add: step_inv)

subsection \<open>A settled wrapper stays as it is\<close>

lemma run_calls_settled: "wrapper st \<noteq> Pending \<Longrightarrow> run_calls cs st = st"
  by (induction cs st rule: run_calls.induct) (simp_all add: resolve_def reject_def split: wrapper_state.splits)

lemma cancel_settled: "wrapper st \<noteq> Pending \<Longrightarrow> cancel p opts d st = st"
  by (simp add: cancel_def run_calls_settled reject_def split: option.splits wrapper_state.splits)

lemma cancel_fields [simp]:
  "heap (cancel p opts d st) = heap st" "now (cancel p opts d st) = now st"
  "reaction (cancel p opts d st) = reaction st" "timer_due (cancel p opts d st) = timer_due st"
  "listener (cancel p opts d st) = listener st" "fulfilled (cancel p opts d st) = fulfilled st"
  "timer (cancel p opts d st) = timer st"
  by (simp_all add: cancel_def split: option.splits)

lemma checkpoint_wrapper:
  "wrapper st \<noteq> Pending \<Longrightarrow>
   wrapper (checkpoint p st) = wrapper st \<and> settlements (checkpoint p st) = settlements st"
  by (simp add: checkpoint_def on_fulfilled_def on_rejected_def split: option.splits settled.splits)

lemma step_wrapper:
  "wrapper st \<noteq> Pending \<Longrightarrow>
   wrapper (step p opts st e) = wrapper st \<and> settlements (step p opts st e) = settlements st"
proof (cases e)
  case TimerFires
  assume w: "wrapper st \<noteq> Pending"
  then have c: "wrapper (checkpoint p st) \<noteq> Pending" by (simp add: checkpoint_wrapper)
  show ?thesis using w c TimerFires
    by (simp add: timer_fires_def Let_def on_timeout_def cancel_settled checkpoint_wrapper
             split: option.splits)
qed (simp_all add: op_settles_def checkpoint_wrapper cancel_requested_def
       on_cancellation_requested_def cancel_settled)

lemma checkpoint_heap [simp]: "heap (checkpoint p st) = heap st"
  by (simp add: checkpoint_def on_fulfilled_def on_rejected_def split: option.splits settled.splits)

lemma step_heap: "heap st q = Some s \<Longrightarrow> heap (step p opts st e) q = Some s"
  by (cases e)
     (auto simp: op_settles_def timer_fires_def Let_def on_timeout_def cancel_requested_def
        on_cancellation_requested_def split: option.splits)

lemma step_settlement: "settlement st = Some s \<Longrightarrow> settlement (step p opts st e) = Some s"
proof -
  assume a: "settlement st = Some s"
  then have w: "wrapper st \<noteq> Pending" by (auto simp: settlement_def)
  show ?thesis using a step_wrapper[OF w, of p opts e]
    by (auto simp: settlement_def step_heap split: wrapper_state.splits)
qed

lemma step_settlements_kept:
  "settlement st = Some s \<Longrightarrow> settlements (step p opts st e) = settlements st"
  using step_wrapper[of st p opts e] by (cases "wrapper st") (auto simp: settlement_def)

lemma run_settlement:
  "settlement st = Some s \<Longrightarrow>
   settlement (run p opts st es) = Some s \<and> settlements (run p opts st es) = settlements st"
  unfolding run_def
  by (induction es arbitrary: st) (simp_all add: step_settlement step_settlements_kept)

lemma run_heap: "heap st q = Some s \<Longrightarrow> heap (run p opts st es) q = Some s"
  unfolding run_def by (induction es arbitrary: st) (simp_all add: step_heap)


lemma reach_run: "reach_inv p b t (run p opts (cancellable h t p b) es)"
  by (simp add: run_inv reach_inv_init)

subsection \<open>Without onDidCancel\<close>

lemma default_inv_init: "default_inv p b opts (cancellable h t p b)"
  by (auto simp: default_inv_def cancellable_def split: bound.splits)

lemma default_inv_checkpoint:
  "default_inv p b opts st \<Longrightarrow> default_inv p b opts (checkpoint p st)"
  by (auto simp: default_inv_def checkpoint_def on_fulfilled_def on_rejected_def
           split: option.splits settled.splits)

lemma default_inv_step:
  assumes "onDidCancel opts = None" "reach_inv p b t st" "default_inv p b opts st"
  shows "default_inv p b opts (step p opts st e)"
proof (cases e)
  case (OpSettles s)
  then show ?thesis using assms by (auto simp: default_inv_def op_settles_def)
next
  case Checkpoint
  then show ?thesis using assms by (simp add: default_inv_checkpoint)
next
  case (Advance n)
  then show ?thesis using assms by (auto simp: default_inv_def)
next
  case TimerFires
  have r: "reach_inv p b t (checkpoint p st)" using assms by (simp add: checkpoint_inv)
  have d: "default_inv p b opts (checkpoint p st)" using assms by (simp add: default_inv_checkpoint)
  show ?thesis using TimerFires r d assms(1)
    by (auto simp: timer_fires_def Let_def on_timeout_def cancel_def default_inv_def reach_inv_def
          default_message_def split: option.splits)
next
  case CancelRequested
  then show ?thesis using assms
    by (auto simp: cancel_requested_def on_cancellation_requested_def cancel_def default_inv_def
          reach_inv_def default_message_def split: option.splits)
qed

lemma default_inv_run:
  assumes "onDidCancel opts = None"
  shows "default_inv p b opts (run p opts (cancellable h t p b) es)"
proof (induction es rule: rev_induct)
  case Nil
  then show ?case by (simp add: run_def default_inv_init)
next
  case (snoc e es)
  have "run p opts (cancellable h t p b) (es @ [e]) = step p opts (run p opts (cancellable h t p b) es) e"
    by (simp add: run_def)
  then show ?case using snoc assms default_inv_step[OF assms reach_run] by simp
qed

subsection \<open>Before the bound fires\<close>

lemma pre_inv_init: "pre_inv p b t (cancellable h t p b)"
  by (auto simp: pre_inv_def cancellable_def)

lemma pre_inv_checkpoint:
  assumes "pre_inv p b t st"
  shows "pre_inv p b t (checkpoint p st)"
proof (cases "reaction st = Queued")
  case False
  then show ?thesis using assms by (simp add: checkpoint_def)
next
  case True
  then have w: "wrapper st = Pending" using assms by (simp add: pre_inv_def)
  show ?thesis
  proof (cases "heap st p")
    case None
    then show ?thesis using assms by (simp add: checkpoint_def)
  next
    case (Some s)
    then show ?thesis using True w
      by (cases s) (simp_all add: pre_inv_def checkpoint_def on_fulfilled_def on_rejected_def settlement_def)
  qed
qed

lemma pre_inv_op_settles:
  assumes "reach_inv p b t st" "pre_inv p b t st"
  shows "pre_inv p b t (op_settles p s st)"
proof (cases "heap st p")
  case None
  then have "reaction st = Subscribed" using assms(1) by (simp add: reach_inv_def)
  then show ?thesis using assms(2) None by (simp add: pre_inv_def op_settles_def)
next
  case (Some s')
  then show ?thesis using assms(2) by (simp add: op_settles_def)
qed

lemma settlement_now [simp]: "settlement (st\<lparr>now := n\<rparr>) = settlement st"
  by (simp add: settlement_def split: wrapper_state.splits)

lemma pre_inv_advance: "pre_inv p b t st \<Longrightarrow> pre_inv p b t (st\<lparr>now := now st + n\<rparr>)"
  by (simp add: pre_inv_def)

lemma pre_inv_step:
  assumes "reach_inv p b t st" "pre_inv p b t st" "\<not> bound_event e"
  shows "pre_inv p b t (step p opts st e)"
  using assms by (cases e) (simp_all add: pre_inv_op_settles pre_inv_checkpoint pre_inv_advance)

lemma pre_inv_run:
  assumes "\<forall>e\<in>set es. \<not> bound_event e"
  shows "pre_inv p b t (run p opts (cancellable h t p b) es)"
  using assms
proof (induction es rule: rev_induct)
  case Nil
  then show ?case by (simp add: run_def pre_inv_init)
next
  case (snoc e es)
  have "pre_inv p b t (step p opts (run p opts (cancellable h t p b) es) e)"
    using snoc by (intro pre_inv_step reach_run) simp_all
  then show ?case by (simp add: run_def)
qed

lemma run_calls_decision:
  "wrapper st = Pending \<Longrightarrow> settlement (run_calls cs st) = decision cs"
proof (cases cs)
  case Nil
  assume "wrapper st = Pending"
  then show ?thesis using Nil by (simp add: settlement_def)
next
  case (Cons c cs')
  assume w: "wrapper st = Pending"
  show ?thesis
  proof (cases c)
    case (CallResolve v)
    have "wrapper (resolve v st) \<noteq> Pending" using w by simp
    then have "run_calls cs' (resolve v st) = resolve v st" by (rule run_calls_settled)
    then show ?thesis using Cons CallResolve w by (simp add: settlement_def)
  next
    case (CallReject r)
    have "wrapper (reject r st) \<noteq> Pending" using w by simp
    then have "run_calls cs' (reject r st) = reject r st" by (rule run_calls_settled)
    then show ?thesis using Cons CallReject w by (simp add: settlement_def)
  qed
qed

lemma deliver_checkpoint:
  assumes "reach_inv p b t st" "pre_inv p b t st" "heap st p = Some s"
  shows "settlement (checkpoint p st) = Some s \<and> reaction (checkpoint p st) = Ran"
  using assms
  by (cases s; cases "reaction st")
     (auto simp: reach_inv_def pre_inv_def checkpoint_def on_fulfilled_def on_rejected_def
        settlement_def)

lemma timer_fires_after_ran:
  assumes "reach_inv p b t st" "reaction st = Ran"
  shows "timer_fires p opts st = st"
  using assms by (simp add: reach_inv_def timer_fires_def Let_def checkpoint_def)

lemma deliver_step:
  assumes "reach_inv p b t st" "pre_inv p b t st" "heap st p = Some s"
    and "e = Checkpoint \<or> e = TimerFires"
  shows "settlement (step p opts st e) = Some s \<and> reaction (step p opts st e) = Ran"
proof -
  have c: "settlement (checkpoint p st) = Some s \<and> reaction (checkpoint p st) = Ran"
    using assms(1-3) by (rule deliver_checkpoint)
  have "reach_inv p b t (checkpoint p st)" using assms(1) by (rule checkpoint_inv)
  then have "timer_due (checkpoint p st) = None" using c by (simp add: reach_inv_def)
  then have "timer_fires p opts st = checkpoint p st"
    by (simp add: timer_fires_def Let_def)
  then show ?thesis using c assms(4) by auto
qed

lemma checkpoint_ran: "reaction st = Ran \<Longrightarrow> checkpoint p st = st"
  by (simp add: checkpoint_def)

lemma step_ran: "reaction st = Ran \<Longrightarrow> reaction (step p opts st e) = Ran"
proof (cases e)
  case TimerFires
  assume "reaction st = Ran"
  then show ?thesis using TimerFires
    by (simp add: timer_fires_def Let_def checkpoint_ran on_timeout_def split: option.splits)
qed (simp_all add: op_settles_def checkpoint_ran cancel_requested_def on_cancellation_requested_def)

lemma run_ran: "reaction st = Ran \<Longrightarrow> reaction (run p opts st es) = Ran"
  unfolding run_def by (induction es arbitrary: st) (simp_all add: step_ran)

subsection \<open>Exactly one settlement\<close>

lemma cancel_requested_settled:
  "wrapper st \<noteq> Pending \<Longrightarrow> cancel_requested p opts st = st"
  by (simp add: cancel_requested_def on_cancellation_requested_def cancel_settled)




text \<open>The definitions unfolded to run the model on a given sequence of events.\<close>

lemmas eval_defs = run_def cancellable_def op_settles_def checkpoint_def timer_fires_def
  cancel_requested_def on_fulfilled_def on_rejected_def on_timeout_def
  on_cancellation_requested_def cancel_def message_or_def resolve_def reject_def
  resolve_thenable_def clear_timer_def settlement_def await_def Let_def default_message_def


subsection \<open>The operation settles first\<close>

text \<open>
  Under a token bound the listener is never detached: the subscription returned by
  \<^verbatim>\<open>onCancellationRequested\<close> is dropped. After the operation has fulfilled with 7 and
  the wrapper has settled with 7, the listener is still attached.
\<close>

theorem listener_stays_attached:
  "settlement (run 0 \<lparr>cancelMessage = None, onDidCancel = None\<rparr>
       (cancellable (\<lambda>_. None) 0 0 Token)
       [OpSettles (Fulfilled (7::nat)), Checkpoint] :: (nat, nat) state) = Some (Fulfilled 7)
   \<and> \<not> (timer_due (run 0 \<lparr>cancelMessage = None, onDidCancel = None\<rparr>
            (cancellable (\<lambda>_. None) 0 0 Token)
            [OpSettles (Fulfilled (7::nat)), Checkpoint] :: (nat, nat) state) = None
        \<and> \<not> listener (run 0 \<lparr>cancelMessage = None, onDidCancel = None\<rparr>
            (cancellable (\<lambda>_. None) 0 0 Token)
            [OpSettles (Fulfilled (7::nat)), Checkpoint] :: (nat, nat) state))"
  by (simp add: eval_defs)

text \<open>
  Cancellation is requested synchronously: it can come after the operation has settled
  and before the queued handler has run. The flag is not set yet, and the wrapper rejects.
\<close>

lemma cancel_requested_before_handler:
  "settlement (run 0 \<lparr>cancelMessage = None, onDidCancel = None\<rparr>
       (cancellable (\<lambda>_. None) 0 0 Token)
       [OpSettles (Fulfilled (7::nat)), CancelRequested, Checkpoint] :: (nat, nat) state)
     = Some (Rejected (CancellationError 0 ''CANCELLED''))"
  by (simp add: eval_defs)

text \<open>
  C2, as the code has it. Suppose the bound's callback has not run, the operation has
  settled with \<open>s\<close>, and the host next reaches the queued handler (at a checkpoint, or
  before a timer task, which always comes after the queued jobs). Then the wrapper
  settles with \<open>s\<close> itself, value or failure, and keeps it whatever happens later; the
  timer is cleared; the listener of a token bound stays attached, but the
  \<^verbatim>\<open>fulfilled\<close> flag is set, so a later cancellation request, like a later timer task,
  leaves the state as it is.
\<close>

theorem operation_settles_first:
  assumes st1: "st1 = run p opts (cancellable h t p b) es1"
    and quiet: "\<forall>e\<in>set es1. \<not> bound_event e"
    and settled: "heap st1 p = Some s"
    and e: "e = Checkpoint \<or> e = TimerFires"
    and st: "st = run p opts st1 (e # es)"
  shows "settlement st = Some s
    \<and> settlements st = 1
    \<and> timer_due st = None
    \<and> listener st = (b = Token)
    \<and> fulfilled st
    \<and> step p opts st CancelRequested = st
    \<and> step p opts st TimerFires = st"
proof -
  have r1: "reach_inv p b t st1" unfolding st1 by (rule reach_run)
  have p1: "pre_inv p b t st1" unfolding st1 using quiet by (rule pre_inv_run)
  let ?d = "step p opts st1 e"
  have d: "settlement ?d = Some s \<and> reaction ?d = Ran"
    using r1 p1 settled e by (rule deliver_step)
  have st_eq: "st = run p opts ?d es" unfolding st by (simp add: run_def)
  have r: "reach_inv p b t st" unfolding st using r1 by (rule run_inv)
  have ran: "reaction st = Ran" unfolding st_eq using d by (simp add: run_ran)
  have s: "settlement st = Some s" unfolding st_eq using d by (simp add: run_settlement)
  have w: "wrapper st \<noteq> Pending" using ran r by (rule reach_invD(6)[rotated])
  have "settlements st = 1" using reach_invD(1,2)[OF r] w by (cases "settlements st") auto
  moreover have "timer_due st = None" using r ran by (rule reach_invD)
  moreover have "listener st = (b = Token)" using r by (rule reach_invD)
  moreover have "fulfilled st" using reach_invD(5)[OF r] ran by simp
  moreover have "step p opts st CancelRequested = st" using w by (simp add: cancel_requested_settled)
  moreover have "step p opts st TimerFires = st" using r ran by (simp add: timer_fires_after_ran)
  ultimately show ?thesis using s by simp
qed

text \<open>
  A 250 ms bound, an operation that fails with error 3 after 100 ms: the wrapper rejects
  with error 3 and the timer is gone when the 250 ms have passed.
\<close>

theorem operation_settles_first_witness:
  "settlement (run 0 \<lparr>cancelMessage = None, onDidCancel = None\<rparr>
       (run 0 \<lparr>cancelMessage = None, onDidCancel = None\<rparr>
          (cancellable (\<lambda>_. None) 0 0 (Timeout 250)) [Advance 100, OpSettles (Rejected (Thrown (3::nat)))])
       [TimerFires, Advance 200, TimerFires] :: (nat, nat) state) = Some (Rejected (Thrown 3))
   \<and> timer_due (run 0 \<lparr>cancelMessage = None, onDidCancel = None\<rparr>
       (run 0 \<lparr>cancelMessage = None, onDidCancel = None\<rparr>
          (cancellable (\<lambda>_. None) 0 0 (Timeout 250)) [Advance 100, OpSettles (Rejected (Thrown (3::nat)))])
       [TimerFires, Advance 200, TimerFires] :: (nat, nat) state) = None"
  using operation_settles_first[OF refl _ _ _ refl, of
      "[Advance 100, OpSettles (Rejected (Thrown (3::nat)))]" 0
      "\<lparr>cancelMessage = None, onDidCancel = None\<rparr> :: (nat, nat) options"
      "\<lambda>_. None" 0 "Timeout 250" "Rejected (Thrown 3)" TimerFires "[Advance 200, TimerFires]"]
  by (simp add: eval_defs)

subsection \<open>The bound fires first\<close>

lemma timer_fires_heap [simp]: "heap (timer_fires p opts st) = heap st"
  by (simp add: timer_fires_def Let_def on_timeout_def split: option.splits)

lemma cancel_requested_heap [simp]: "heap (cancel_requested p opts st) = heap st"
  by (simp add: cancel_requested_def on_cancellation_requested_def)

lemma step_heap_kept: "\<not> settle_event e \<Longrightarrow> heap (step p opts st e) = heap st"
  by (cases e) simp_all

lemma run_heap_kept: "\<forall>e\<in>set es. \<not> settle_event e \<Longrightarrow> heap (run p opts st es) = heap st"
  unfolding run_def by (induction es arbitrary: st) (simp_all add: step_heap_kept)

lemma settlement_reject_pending:
  "wrapper st = Pending \<Longrightarrow> settlement (reject r st) = Some (Rejected r)"
  by (simp add: settlement_def)

lemma cancel_pending:
  assumes "wrapper st = Pending"
  shows "settlement (cancel p opts dflt st) =
     (case onDidCancel opts of
        None \<Rightarrow> Some (Rejected (CancellationError p (message_or (cancelMessage opts) dflt)))
      | Some cs \<Rightarrow> decision cs)"
  using assms
  by (simp add: cancel_def run_calls_decision settlement_reject_pending split: option.splits)

lemma fire_pending:
  assumes r: "reach_inv p b t st1" and pre: "pre_inv p b t st1" and pending: "heap st1 p = None"
  shows "\<exists>st'. run p opts st1 (case b of Timeout d \<Rightarrow> [Advance d, TimerFires] | Token \<Rightarrow> [CancelRequested])
           = cancel p opts (default_message b) st'
         \<and> wrapper st' = Pending \<and> heap st' = heap st1"
proof -
  have sub: "reaction st1 = Subscribed" using reach_invD(8)[OF r] pending by simp
  then have nr: "reaction st1 \<noteq> Ran" by simp
  have w: "wrapper st1 = Pending" using pre nr by (simp add: pre_inv_def)
  show ?thesis
  proof (cases b)
    case Token
    have "listener st1" using reach_invD(10)[OF r] Token by simp
    moreover have "\<not> fulfilled st1" using reach_invD(5)[OF r] nr by simp
    ultimately have "run p opts st1 [CancelRequested] = cancel p opts ''CANCELLED'' st1"
      by (simp add: run_def cancel_requested_def on_cancellation_requested_def)
    then show ?thesis using Token w by (auto simp: default_message_def)
  next
    case (Timeout d)
    let ?a = "st1\<lparr>now := now st1 + d\<rparr>"
    have due: "timer_due st1 = Some (t + d)" using pre nr Timeout by (simp add: pre_inv_def)
    have "t \<le> now st1" using r by (rule reach_invD)
    then have "run p opts st1 [Advance d, TimerFires]
        = cancel p opts ''TIMED OUT'' (?a\<lparr>timer_due := None\<rparr>)"
      using sub due by (simp add: run_def timer_fires_def Let_def checkpoint_def on_timeout_def)
    then show ?thesis using Timeout w
      by (intro exI[of _ "?a\<lparr>timer_due := None\<rparr>"]) (simp add: default_message_def)
  qed
qed

text \<open>
  C3, as the code has it. Suppose the bound's callback has not run and the operation is
  still pending when the bound fires (the duration has passed and the timer task starts,
  or cancellation is requested). With no \<^verbatim>\<open>onDidCancel\<close> the wrapper rejects with a
  \<^verbatim>\<open>CancellationError\<close> whose \<^verbatim>\<open>promise\<close> is the operation itself and whose message is
  \<^verbatim>\<open>cancelMessage\<close> when that is given and not empty, and otherwise \<^verbatim>\<open>TIMED OUT\<close> for a
  duration and \<^verbatim>\<open>CANCELLED\<close> for a token; when the operation settles later, awaiting that
  \<^verbatim>\<open>promise\<close> yields the operation's settlement, and the wrapper keeps its rejection.
  With an \<^verbatim>\<open>onDidCancel\<close> the callback is run with the two resolving functions and the
  wrapper's settlement is the first call it makes (none if it makes no call).
\<close>

theorem bound_fires_first:
  assumes st1: "st1 = run p opts (cancellable h t p b) es1"
    and quiet: "\<forall>e\<in>set es1. \<not> bound_event e"
    and pending: "heap st1 p = None"
    and st: "st = run p opts st1
               (case b of Timeout d \<Rightarrow> [Advance d, TimerFires] | Token \<Rightarrow> [CancelRequested])"
    and ce: "ce = CancellationError p (message_or (cancelMessage opts) (default_message b))"
  shows "(onDidCancel opts = None \<longrightarrow>
            settlement st = Some (Rejected ce)
          \<and> promise ce = p
          \<and> message ce =
              (case cancelMessage opts of
                 None \<Rightarrow> default_message b
               | Some m \<Rightarrow> if m = [] then default_message b else m)
          \<and> (\<forall>s es. await (run p opts st (OpSettles s # es)) (promise ce) = Some s
                    \<and> settlement (run p opts st (OpSettles s # es)) = Some (Rejected ce)))
       \<and> (\<forall>cs. onDidCancel opts = Some cs \<longrightarrow> settlement st = decision cs)"
proof -
  have r1: "reach_inv p b t st1" unfolding st1 by (rule reach_run)
  have p1: "pre_inv p b t st1" unfolding st1 using quiet by (rule pre_inv_run)
  obtain st' where f: "st = cancel p opts (default_message b) st'"
    and w: "wrapper st' = Pending" and hp: "heap st' = heap st1"
    using fire_pending[OF r1 p1 pending, of opts] st by auto
  have s: "settlement st =
     (case onDidCancel opts of
        None \<Rightarrow> Some (Rejected ce)
      | Some cs \<Rightarrow> decision cs)"
    unfolding f ce using w by (rule cancel_pending)
  have hst: "heap st p = None" unfolding f using hp pending by simp
  have later: "await (run p opts st (OpSettles s # es)) (promise ce) = Some s
      \<and> settlement (run p opts st (OpSettles s # es)) = Some (Rejected ce)"
    if oc: "onDidCancel opts = None" for s es
  proof -
    have "heap (step p opts st (OpSettles s)) p = Some s" using hst by (simp add: op_settles_def)
    then have "heap (run p opts (step p opts st (OpSettles s)) es) p = Some s" by (rule run_heap)
    then have a: "await (run p opts st (OpSettles s # es)) (promise ce) = Some s"
      by (simp add: run_def await_def ce)
    have "settlement st = Some (Rejected ce)" using s oc by simp
    then show ?thesis using a run_settlement by blast
  qed
  have m: "message ce =
      (case cancelMessage opts of
         None \<Rightarrow> default_message b
       | Some m \<Rightarrow> if m = [] then default_message b else m)"
    by (simp add: ce message_or_def)
  show ?thesis using s later m by (simp add: ce)
qed

text \<open>
  A 250 ms bound with the message \<^verbatim>\<open>too slow\<close>: after 350 ms the wrapper has rejected with
  that message, and the operation, fulfilled with 7 afterwards, is still there to await.
\<close>

theorem bound_fires_first_witness:
  "settlement (run 0 \<lparr>cancelMessage = Some ''too slow'', onDidCancel = None\<rparr>
       (run 0 \<lparr>cancelMessage = Some ''too slow'', onDidCancel = None\<rparr>
          (cancellable (\<lambda>_. None) 0 0 (Timeout 250)) [Advance 100])
       [Advance 250, TimerFires] :: (nat, nat) state)
     = Some (Rejected (CancellationError 0 ''too slow''))
   \<and> await (run 0 \<lparr>cancelMessage = Some ''too slow'', onDidCancel = None\<rparr>
       (run 0 \<lparr>cancelMessage = Some ''too slow'', onDidCancel = None\<rparr>
         (run 0 \<lparr>cancelMessage = Some ''too slow'', onDidCancel = None\<rparr>
            (cancellable (\<lambda>_. None) 0 0 (Timeout 250)) [Advance 100])
         [Advance 250, TimerFires])
        [OpSettles (Fulfilled (7::nat)), Checkpoint] :: (nat, nat) state) 0 = Some (Fulfilled 7)"
  using bound_fires_first[OF refl _ _ refl refl, of "[Advance 100]" 0
      "\<lparr>cancelMessage = Some ''too slow'', onDidCancel = None\<rparr> :: (nat, nat) options"
      "\<lambda>_. None" 0 "Timeout 250"]
  by (simp add: eval_defs)

text \<open>
  An empty \<^verbatim>\<open>cancelMessage\<close> is falsy: the reason text is \<^verbatim>\<open>TIMED OUT\<close>, not the
  caller's empty text.
\<close>

theorem empty_cancel_message_replaced:
  "settlement (run 0 \<lparr>cancelMessage = Some [], onDidCancel = None\<rparr>
       (cancellable (\<lambda>_. None) 0 0 (Timeout 250)) [Advance 250, TimerFires] :: (nat, nat) state)
     = Some (Rejected (CancellationError 0 ''TIMED OUT''))
   \<and> settlement (run 0 \<lparr>cancelMessage = Some [], onDidCancel = None\<rparr>
       (cancellable (\<lambda>_. None) 0 0 (Timeout 250)) [Advance 250, TimerFires] :: (nat, nat) state)
     \<noteq> Some (Rejected (CancellationError 0 []))"
  by (simp add: eval_defs)

subsection \<open>A duration of zero\<close>

lemma settlement_timer_due [simp]: "settlement (st\<lparr>timer_due := x\<rparr>) = settlement st"
  by (simp add: settlement_def split: wrapper_state.splits)

lemma timer_fires_settled:
  "wrapper st \<noteq> Pending \<Longrightarrow> settlement (timer_fires p opts st) = settlement (checkpoint p st)"
proof -
  assume "wrapper st \<noteq> Pending"
  then have "wrapper (checkpoint p st) \<noteq> Pending" by (simp add: checkpoint_wrapper)
  then show ?thesis
    by (simp add: timer_fires_def Let_def on_timeout_def cancel_settled split: option.splits)
qed

lemma queued_deliver:
  assumes "reaction st = Queued" "wrapper st = Pending" "heap st p = Some s"
    and "e = Checkpoint \<or> e = TimerFires"
  shows "settlement (step p opts st e) = Some s"
proof -
  have c: "settlement (checkpoint p st) = Some s \<and> wrapper (checkpoint p st) \<noteq> Pending"
    using assms(1-3)
    by (cases s) (simp_all add: checkpoint_def on_fulfilled_def on_rejected_def settlement_def)
  then have "settlement (timer_fires p opts st) = Some s"
    by (simp add: timer_fires_def Let_def on_timeout_def cancel_settled split: option.splits)
  then show ?thesis using c assms(4) by auto
qed

lemma queued_run:
  assumes "reaction st = Queued" "wrapper st = Pending" "heap st p = Some s" "\<not> listener st"
  shows "settlement (run p opts st es) =
     (if Checkpoint \<in> set es \<or> TimerFires \<in> set es then Some s else None)"
  using assms
proof (induction es arbitrary: st)
  case Nil
  then show ?case by (simp add: run_def settlement_def)
next
  case (Cons e es)
  have run_eq: "run p opts st (e # es) = run p opts (step p opts st e) es" by (simp add: run_def)
  show ?case
  proof (cases "e = Checkpoint \<or> e = TimerFires")
    case True
    have "settlement (step p opts st e) = Some s"
      using Cons.prems(1-3) True by (rule queued_deliver)
    then have "settlement (run p opts (step p opts st e) es) = Some s"
      by (simp add: run_settlement)
    then show ?thesis using True run_eq by auto
  next
    case False
    then have keep: "reaction (step p opts st e) = Queued \<and> wrapper (step p opts st e) = Pending
        \<and> heap (step p opts st e) p = Some s \<and> \<not> listener (step p opts st e)"
      using Cons.prems by (cases e) (simp_all add: op_settles_def cancel_requested_def)
    then have "settlement (run p opts (step p opts st e) es) =
        (if Checkpoint \<in> set es \<or> TimerFires \<in> set es then Some s else None)"
      using Cons.IH by blast
    then show ?thesis using False run_eq by auto
  qed
qed

lemma timer_fires_pending_op:
  assumes oc: "onDidCancel opts = None"
    and r: "reach_inv p (Timeout 0) t st" and dv: "default_inv p (Timeout 0) opts st"
    and pending: "heap st p = None"
  shows "settlement (timer_fires p opts st)
     = Some (Rejected (CancellationError p (message_or (cancelMessage opts) ''TIMED OUT'')))"
proof -
  let ?ce = "CancellationError p (message_or (cancelMessage opts) ''TIMED OUT'') :: 'b reason"
  have sub: "reaction st = Subscribed" using reach_invD(8)[OF r] pending by simp
  then have ck: "checkpoint p st = st" by (simp add: checkpoint_def)
  have settled_case: "settlement st = Some (Rejected ?ce)" if w: "wrapper st \<noteq> Pending"
  proof (cases "wrapper st")
    case Pending
    then show ?thesis using w by simp
  next
    case (Follows q)
    then show ?thesis using reach_invD(4)[OF r, of q] pending by simp
  next
    case (Settled s)
    then show ?thesis using dv pending by (auto simp: default_inv_def settlement_def default_message_def)
  qed
  show ?thesis
  proof (cases "wrapper st = Pending")
    case False
    then show ?thesis using settled_case by (simp add: timer_fires_settled ck)
  next
    case True
    then have "timer_due st \<noteq> None" using dv by (auto simp: default_inv_def)
    then obtain x where x: "timer_due st = Some x" by auto
    then have "x = t" using reach_invD(12)[OF r, of x] by auto
    then have "x \<le> now st" using reach_invD(11)[OF r] by simp
    then show ?thesis using x True oc
      by (simp add: timer_fires_def Let_def ck on_timeout_def cancel_def settlement_def)
  qed
qed

text \<open>
  C8, as the code has it. With a duration of 0: if the operation is already settled when
  \<^verbatim>\<open>cancellable\<close> is called, the wrapper's settlement is the operation's, from the first
  checkpoint or timer task on, whatever else happens; if the operation is pending and
  does not settle before the timer task starts, the wrapper rejects with a
  \<^verbatim>\<open>CancellationError\<close> (no \<^verbatim>\<open>onDidCancel\<close>); and if the operation is pending at the
  call but settles before the timer task starts, the wrapper's settlement is the
  operation's.
\<close>

theorem zero_timeout_race:
  assumes st0: "st0 = cancellable h t p (Timeout 0)"
  shows "(\<forall>s es. h p = Some s \<longrightarrow>
            settlement (run p opts st0 es)
              = (if Checkpoint \<in> set es \<or> TimerFires \<in> set es then Some s else None))
       \<and> (\<forall>es1 es. h p = None \<and> onDidCancel opts = None \<and> (\<forall>e\<in>set es1. \<not> settle_event e) \<longrightarrow>
            settlement (run p opts st0 (es1 @ TimerFires # es))
              = Some (Rejected (CancellationError p (message_or (cancelMessage opts) ''TIMED OUT''))))
       \<and> (\<forall>es1 s e es. h p = None \<and> (\<forall>e\<in>set es1. \<not> settle_event e \<and> \<not> bound_event e)
              \<and> (e = Checkpoint \<or> e = TimerFires) \<longrightarrow>
            settlement (run p opts st0 (es1 @ OpSettles s # e # es)) = Some s)"
proof -
  have a: "settlement (run p opts st0 es)
      = (if Checkpoint \<in> set es \<or> TimerFires \<in> set es then Some s else None)"
    if "h p = Some s" for s es
    using that by (intro queued_run) (simp_all add: st0 cancellable_def)
  have b: "settlement (run p opts st0 (es1 @ TimerFires # es))
      = Some (Rejected (CancellationError p (message_or (cancelMessage opts) ''TIMED OUT'')))"
    if hp: "h p = None" and oc: "onDidCancel opts = None" and q: "\<forall>e\<in>set es1. \<not> settle_event e"
    for es1 es
  proof -
    let ?st1 = "run p opts st0 es1"
    have r: "reach_inv p (Timeout 0) t ?st1" unfolding st0 by (rule reach_run)
    have d: "default_inv p (Timeout 0) opts ?st1" unfolding st0 using oc by (rule default_inv_run)
    have "heap ?st1 = heap st0" using q by (rule run_heap_kept)
    then have pending: "heap ?st1 p = None" using hp by (simp add: st0 cancellable_def)
    have "settlement (step p opts ?st1 TimerFires)
        = Some (Rejected (CancellationError p (message_or (cancelMessage opts) ''TIMED OUT'')))"
      using timer_fires_pending_op[OF oc r d pending] by simp
    then have "settlement (run p opts (step p opts ?st1 TimerFires) es)
        = Some (Rejected (CancellationError p (message_or (cancelMessage opts) ''TIMED OUT'')))"
      by (simp add: run_settlement)
    then show ?thesis by (simp add: run_def)
  qed
  have c: "settlement (run p opts st0 (es1 @ OpSettles s # e # es)) = Some s"
    if hp: "h p = None" and q: "\<forall>e\<in>set es1. \<not> settle_event e \<and> \<not> bound_event e"
      and e: "e = Checkpoint \<or> e = TimerFires"
    for es1 s e es
  proof -
    let ?st1 = "run p opts st0 es1"
    let ?st2 = "run p opts st0 (es1 @ [OpSettles s])"
    have "heap ?st1 = heap st0" using q by (intro run_heap_kept) simp
    then have pending: "heap ?st1 p = None" using hp by (simp add: st0 cancellable_def)
    have st2: "?st2 = op_settles p s ?st1" by (simp add: run_def)
    have hs: "heap ?st2 p = Some s" unfolding st2 using pending by (simp add: op_settles_def)
    have r2: "reach_inv p (Timeout 0) t ?st2" unfolding st0 by (rule reach_run)
    have "\<forall>e\<in>set (es1 @ [OpSettles s]). \<not> bound_event e" using q by simp
    then have p2: "pre_inv p (Timeout 0) t ?st2" unfolding st0 by (rule pre_inv_run)
    have "settlement (step p opts ?st2 e) = Some s"
      using deliver_step[OF r2 p2 hs e] by simp
    then have "settlement (run p opts (step p opts ?st2 e) es) = Some s"
      by (simp add: run_settlement)
    then show ?thesis by (simp add: run_def)
  qed
  show ?thesis using a b c by blast
qed

text \<open>
  An operation already fulfilled with 7 wins against a duration of 0; a pending one that
  settles only after the timer task loses.
\<close>

theorem zero_timeout_race_witness:
  "settlement (run 0 \<lparr>cancelMessage = None, onDidCancel = None\<rparr>
       (cancellable ((\<lambda>_. None)(0 := Some (Fulfilled (7::nat)))) 0 0 (Timeout 0))
       [TimerFires] :: (nat, nat) state) = Some (Fulfilled 7)
   \<and> settlement (run 0 \<lparr>cancelMessage = None, onDidCancel = None\<rparr>
       (cancellable (\<lambda>_. None) 0 0 (Timeout 0))
       ([Checkpoint] @ TimerFires # [OpSettles (Fulfilled (7::nat)), Checkpoint]) :: (nat, nat) state)
     = Some (Rejected (CancellationError 0 ''TIMED OUT''))"
  using zero_timeout_race[OF refl, of "(\<lambda>_. None)(0 := Some (Fulfilled (7::nat)))" 0
      "\<lparr>cancelMessage = None, onDidCancel = None\<rparr> :: (nat, nat) options" 0]
    zero_timeout_race[OF refl, of "\<lambda>_. None" 0
      "\<lparr>cancelMessage = None, onDidCancel = None\<rparr> :: (nat, nat) options" 0]
  by (simp add: eval_defs)

text \<open>
  The operation is pending when \<^verbatim>\<open>cancellable\<close> is called with a duration of 0, and
  fulfils with 7 before the timer task starts: the wrapper fulfils with 7.
\<close>

theorem zero_timeout_operation_wins:
  "heap (cancellable (\<lambda>_. None) 0 0 (Timeout 0) :: (nat, nat) state) 0 = None
   \<and> settlement (run 0 \<lparr>cancelMessage = None, onDidCancel = None\<rparr>
       (cancellable (\<lambda>_. None) 0 0 (Timeout 0))
       [OpSettles (Fulfilled (7::nat)), TimerFires] :: (nat, nat) state) = Some (Fulfilled 7)"
  by (simp add: eval_defs)

section \<open>Properties of the hover lookups\<close>

subsection \<open>The lookups once their gates are open\<close>

lemma getAutoLinkedIssues_open:
  assumes "autolinks_enabled (config c)" "autolinks_enhanced (config c)"
    and "has c (detailsMarkdownFormat (config c)) [''message'']"
    and "default_remote rs = Some remote"
  shows "getAutoLinkedIssues c msg rs =
     ([GetIssueLinks msg remote 250],
      (case getIssueLinks c msg remote 250 of Inr issues \<Rightarrow> Inr issues | Inl ex \<Rightarrow> Inr None))"
  using assms by (simp add: getAutoLinkedIssues_def split: sum.splits)

lemma getAutoLinkedIssues_never_rejects: "\<exists>v. snd (getAutoLinkedIssues c msg rs) = Inr v"
  by (simp add: getAutoLinkedIssues_def Let_def split: option.splits sum.splits)

lemma lookup_pull_request_not_Inl [simp]: "snd (lookup_pull_request c rf prov) \<noteq> Inl ex"
  by (simp add: lookup_pull_request_def split: sum.splits)

lemma getPullRequestForCommit_open:
  assumes "pullRequests_enabled (config c)"
    and "has c (detailsMarkdownFormat (config c)) pull_request_fields"
    and "default_remote rs = Some remote" "provider remote = Some prov" "hasApi prov"
  shows "getPullRequestForCommit c rf rs =
     (case maybeConnected prov of
        Some connected \<Rightarrow>
          if \<not> connected then ([], Inr (Remote remote)) else lookup_pull_request c rf prov
      | None \<Rightarrow>
          (case isConnected c prov of
             Inl ex \<Rightarrow> ([IsConnected prov], Inl ex)
           | Inr connected \<Rightarrow>
               if \<not> connected then ([IsConnected prov], Inr (Remote remote))
               else (IsConnected prov # fst (lookup_pull_request c rf prov),
                     snd (lookup_pull_request c rf prov))))"
  using assms by (simp add: getPullRequestForCommit_def pull_request_fields_def)

subsection \<open>The combined await\<close>

lemma first_rejection_None_iff:
  "first_rejection order rs = None \<longleftrightarrow> (\<forall>r\<in>set rs. r = None)"
proof -
  have later: "List.map_filter (\<lambda>r. r) rs = [] \<longleftrightarrow> (\<forall>r\<in>set rs. r = None)"
    by (induction rs) (auto simp: List.map_filter_simps split: option.splits)
  have listed: "List.map_filter (\<lambda>i. if i < length rs then rs ! i else None) order = []"
    if none: "\<forall>r\<in>set rs. r = None"
  proof -
    have "rs ! i = None" if "i < length rs" for i
      using none that nth_mem by blast
    then show ?thesis by (induction order) (simp_all add: List.map_filter_simps)
  qed
  show ?thesis
    using later listed by (auto simp: first_rejection_def split: list.splits)
qed

lemma first_rejection_None:
  "first_rejection order [a, b, c, d] = None \<longleftrightarrow> a = None \<and> b = None \<and> c = None \<and> d = None"
  by (auto simp: first_rejection_None_iff)


lemma promise_all_Inr:
  "promise_all order a b c d = Inr v \<longleftrightarrow>
   a = Inr (fst v) \<and> b = Inr (fst (snd v)) \<and> c = Inr (fst (snd (snd v)))
   \<and> d = Inr (snd (snd (snd v)))"
proof (cases "first_rejection order [rejection a, rejection b, rejection c, rejection d]")
  case None
  then have "rejection a = None \<and> rejection b = None \<and> rejection c = None \<and> rejection d = None"
    by (simp add: first_rejection_None)
  then show ?thesis using None
    by (cases v) (auto simp: promise_all_def rejection_def split: sum.splits)
next
  case (Some x)
  then have "\<not> (rejection a = None \<and> rejection b = None \<and> rejection c = None \<and> rejection d = None)"
    using first_rejection_None[of order "rejection a" "rejection b" "rejection c" "rejection d"]
    by simp
  then show ?thesis using Some
    by (auto simp: promise_all_def rejection_def split: sum.splits)
qed

lemma detailsOptions_Inr:
  assumes "detailsOptions order c commit ln df at = Inr opts"
  shows "getRemotes c (repoPath commit) = Inr (remotes opts)"
    and "snd (getAutoLinkedIssues c (commit_message commit) (remotes opts))
           = Inr (autolinkedIssues opts)"
    and "snd (getPullRequestForCommit c (ref commit) (remotes opts))
           = Inr (pullRequestOrRemote opts)"
    and "(if isUncommitted commit then getPreviousLineDiffUris c commit ln else Inr None)
           = Inr (previousLineDiffUris opts)"
    and "(case maybeGetPresence c (email commit) of Inl reason \<Rightarrow> Inr None | Inr v \<Rightarrow> Inr v)
           = Inr (presence opts)"
proof -
  have "getRemotes c (repoPath commit) = Inr (remotes opts)
       \<and> snd (getAutoLinkedIssues c (commit_message commit) (remotes opts))
            = Inr (autolinkedIssues opts)
       \<and> snd (getPullRequestForCommit c (ref commit) (remotes opts))
            = Inr (pullRequestOrRemote opts)
       \<and> (if isUncommitted commit then getPreviousLineDiffUris c commit ln else Inr None)
            = Inr (previousLineDiffUris opts)
       \<and> (case maybeGetPresence c (email commit) of Inl reason \<Rightarrow> Inr None | Inr v \<Rightarrow> Inr v)
            = Inr (presence opts)"
  proof (cases "getRemotes c (repoPath commit)")
    case (Inl e)
    then show ?thesis using assms by (simp add: detailsOptions_def)
  next
    case (Inr rs)
    then show ?thesis using assms
      by (auto simp: detailsOptions_def promise_all_Inr Let_def split: sum.splits)
  qed
  then show "getRemotes c (repoPath commit) = Inr (remotes opts)"
    and "snd (getAutoLinkedIssues c (commit_message commit) (remotes opts))
           = Inr (autolinkedIssues opts)"
    and "snd (getPullRequestForCommit c (ref commit) (remotes opts))
           = Inr (pullRequestOrRemote opts)"
    and "(if isUncommitted commit then getPreviousLineDiffUris c commit ln else Inr None)
           = Inr (previousLineDiffUris opts)"
    and "(case maybeGetPresence c (email commit) of Inl reason \<Rightarrow> Inr None | Inr v \<Rightarrow> Inr v)
           = Inr (presence opts)"
    by blast+
qed

lemma detailsOptions_surfaces:
  assumes "getRemotes c (repoPath commit) = Inr rs"
    and "detailsOptions order c commit ln df at = Inr opts"
  shows "snd (getAutoLinkedIssues c (commit_message commit) rs) = Inr (autolinkedIssues opts)
       \<and> snd (getPullRequestForCommit c (ref commit) rs) = Inr (pullRequestOrRemote opts)
       \<and> remotes opts = rs"
  using assms(1) detailsOptions_Inr[OF assms(2)] by auto

lemma rejection_getAutoLinkedIssues [simp]:
  "rejection (snd (getAutoLinkedIssues c msg rs)) = None"
  using getAutoLinkedIssues_never_rejects[of c msg rs] by (auto simp: rejection_def)

lemma rejection_presence [simp]:
  "rejection (case r of Inl reason \<Rightarrow> Inr None | Inr v \<Rightarrow> Inr v) = None"
  by (simp add: rejection_def split: sum.splits)






lemma default_remote_filter: "default_remote (filter default rs) = default_remote rs"
  by (induction rs) (auto simp: default_remote_def)

lemma default_remote_Some:
  "default_remote rs = Some r \<Longrightarrow>
   \<exists>pre post. rs = pre @ r # post \<and> default r \<and> provider r \<noteq> None
      \<and> (\<forall>x\<in>set pre. \<not> (default x \<and> provider x \<noteq> None))"
  unfolding default_remote_def find_Some_iff
  by (metis id_take_nth_drop in_set_conv_nth length_take min.absorb4 nth_take)

lemmas example_defs = example_provider_def example_remote_def example_config_def
  example_container_def default_remote_def pull_request_fields_def


subsection \<open>Timed-out lookups\<close>

text \<open>
  C4. When the pull-request lookup is issued and the underlying call rejects with a
  \<^verbatim>\<open>CancellationError\<close>, \<^verbatim>\<open>getPullRequestForCommit\<close> returns that very error, and the
  underlying call was made once. When the issue lookup is issued and yields a map,
  \<^verbatim>\<open>getAutoLinkedIssues\<close> returns that map as it is, timed-out entries included, after
  one call. \<^verbatim>\<open>detailsMessage\<close> hands both results to the formatter unchanged.
\<close>

theorem timed_out_lookup_is_surfaced:
  "(pullRequests_enabled (config c)
      \<and> has c (detailsMarkdownFormat (config c)) pull_request_fields
      \<and> default_remote rs = Some remote \<and> provider remote = Some prov \<and> hasApi prov
      \<and> (maybeConnected prov = Some True
           \<or> maybeConnected prov = None \<and> isConnected c prov = Inr True)
      \<and> git_getPullRequestForCommit c rf prov 250 = Inl ex \<and> is_CancellationError ex
    \<longrightarrow> snd (getPullRequestForCommit c rf rs) = Inr (Error ex)
      \<and> filter pull_request_call (fst (getPullRequestForCommit c rf rs))
          = [GetPullRequestForCommit rf prov 250])
   \<and> (autolinks_enabled (config c) \<and> autolinks_enhanced (config c)
      \<and> has c (detailsMarkdownFormat (config c)) [''message'']
      \<and> default_remote rs = Some remote
      \<and> getIssueLinks c msg remote 250 = Inr issues
    \<longrightarrow> getAutoLinkedIssues c msg rs = ([GetIssueLinks msg remote 250], Inr issues))
   \<and> (getRemotes c (repoPath commit) = Inr rs
      \<and> detailsOptions order c commit ln df at = Inr opts
    \<longrightarrow> snd (getPullRequestForCommit c (ref commit) rs) = Inr (pullRequestOrRemote opts)
      \<and> snd (getAutoLinkedIssues c (commit_message commit) rs) = Inr (autolinkedIssues opts))"
proof -
  have pr: "snd (getPullRequestForCommit c rf rs) = Inr (Error ex)
      \<and> filter pull_request_call (fst (getPullRequestForCommit c rf rs))
          = [GetPullRequestForCommit rf prov 250]"
    if "pullRequests_enabled (config c)"
      "has c (detailsMarkdownFormat (config c)) pull_request_fields"
      "default_remote rs = Some remote" "provider remote = Some prov" "hasApi prov"
      "maybeConnected prov = Some True \<or> maybeConnected prov = None \<and> isConnected c prov = Inr True"
      "git_getPullRequestForCommit c rf prov 250 = Inl ex" "is_CancellationError ex"
    using that(6-8) getPullRequestForCommit_open[OF that(1-5), of rf]
    by (auto simp: lookup_pull_request_def)
  have al: "getAutoLinkedIssues c msg rs = ([GetIssueLinks msg remote 250], Inr issues)"
    if "autolinks_enabled (config c)" "autolinks_enhanced (config c)"
      "has c (detailsMarkdownFormat (config c)) [''message'']"
      "default_remote rs = Some remote" "getIssueLinks c msg remote 250 = Inr issues"
    using that(5) getAutoLinkedIssues_open[OF that(1-4), of msg] by simp
  have round: "snd (getPullRequestForCommit c (ref commit) rs) = Inr (pullRequestOrRemote opts)
      \<and> snd (getAutoLinkedIssues c (commit_message commit) rs) = Inr (autolinkedIssues opts)"
    if "getRemotes c (repoPath commit) = Inr rs"
      "detailsOptions order c commit ln df at = Inr opts"
    using detailsOptions_surfaces[OF that] by simp
  show ?thesis using pr al round by blast
qed

text \<open>
  The example container: the pull-request call times out and one of the two issue
  entries is a timed-out query.
\<close>

theorem timed_out_lookup_is_surfaced_witness:
  "snd (getPullRequestForCommit example_container ''abc123'' [example_remote])
     = Inr (Error (CancellationError 9 ''TIMED OUT''))
   \<and> snd (getAutoLinkedIssues example_container ''fixes #1 #2'' [example_remote])
     = Inr (Some [(''#1'', Issue 1), (''#2'', Cancelled 5 ''TIMED OUT'')])"
  using timed_out_lookup_is_surfaced[of example_container "[example_remote]" example_remote
      example_provider "''abc123''" "CancellationError 9 ''TIMED OUT''" "''fixes #1 #2''"
      "Some [(''#1'', Issue 1), (''#2'', Cancelled 5 ''TIMED OUT'')]"]
  by (simp add: example_defs)

subsection \<open>Failing lookups\<close>




subsection \<open>Gating\<close>

text \<open>
  C6. \<^verbatim>\<open>getAutoLinkedIssues\<close> returns \<^verbatim>\<open>undefined\<close> and makes no call when autolinks
  are not enabled or not enhanced, when the details format has no \<^verbatim>\<open>message\<close> field, or
  when no default remote with a provider exists. \<^verbatim>\<open>getPullRequestForCommit\<close> returns
  \<^verbatim>\<open>undefined\<close> and makes no call when pull requests are not enabled, when the format
  has none of the pull-request fields, when no default remote with a provider exists, or
  when that provider has no API.
\<close>

theorem lookups_are_gated:
  "(\<not> autolinks_enabled (config c) \<or> \<not> autolinks_enhanced (config c)
      \<or> \<not> has c (detailsMarkdownFormat (config c)) [''message'']
      \<or> default_remote rs = None
    \<longrightarrow> getAutoLinkedIssues c msg rs = ([], Inr None))
   \<and> (\<not> pullRequests_enabled (config c)
      \<or> \<not> has c (detailsMarkdownFormat (config c)) pull_request_fields
      \<or> default_remote rs = None
      \<or> (\<exists>remote prov. default_remote rs = Some remote \<and> provider remote = Some prov
             \<and> \<not> hasApi prov)
    \<longrightarrow> getPullRequestForCommit c rf rs = ([], Inr Undefined))"
  by (auto simp: getAutoLinkedIssues_def getPullRequestForCommit_def pull_request_fields_def)

text \<open>Autolinks not enhanced; a provider without the API.\<close>

theorem lookups_are_gated_witness:
  "getAutoLinkedIssues (example_container\<lparr>config := example_config\<lparr>autolinks_enhanced := False\<rparr>\<rparr>)
       ''fixes #1 #2'' [example_remote] = ([], Inr None)
   \<and> getPullRequestForCommit example_container ''abc123''
       [example_remote\<lparr>provider := Some (example_provider\<lparr>hasApi := False\<rparr>)\<rparr>]
     = ([], Inr Undefined)"
  using lookups_are_gated[of "example_container\<lparr>config := example_config\<lparr>autolinks_enhanced := False\<rparr>\<rparr>"
      "[example_remote]" "''fixes #1 #2''"]
    lookups_are_gated[of example_container
      "[example_remote\<lparr>provider := Some (example_provider\<lparr>hasApi := False\<rparr>)\<rparr>]" _ "''abc123''"]
  by (simp add: example_defs)

subsection \<open>The provider is not connected\<close>

text \<open>
  A default remote whose provider has no API and is not connected: the lookup returns
  \<^verbatim>\<open>undefined\<close>, not the remote.
\<close>

theorem provider_without_api_is_plain_skip:
  "default_remote [example_remote\<lparr>provider := Some (example_provider\<lparr>hasApi := False, maybeConnected := Some False\<rparr>)\<rparr>]
     = Some (example_remote\<lparr>provider := Some (example_provider\<lparr>hasApi := False, maybeConnected := Some False\<rparr>)\<rparr>)
   \<and> getPullRequestForCommit example_container ''abc123''
       [example_remote\<lparr>provider := Some (example_provider\<lparr>hasApi := False, maybeConnected := Some False\<rparr>)\<rparr>]
     = ([], Inr Undefined)
   \<and> snd (getPullRequestForCommit example_container ''abc123''
       [example_remote\<lparr>provider := Some (example_provider\<lparr>hasApi := False, maybeConnected := Some False\<rparr>)\<rparr>])
     \<noteq> Inr (Remote (example_remote\<lparr>provider := Some (example_provider\<lparr>hasApi := False, maybeConnected := Some False\<rparr>)\<rparr>))"
  by (simp add: example_defs getPullRequestForCommit_def)

text \<open>
  C7, as the code has it. When the lookup is enabled and relevant, the default remote's
  provider has the API, and the provider is not connected (\<^verbatim>\<open>maybeConnected\<close> is false,
  or it is unknown and \<^verbatim>\<open>isConnected()\<close> yields false), the lookup returns the remote
  itself and does not make the pull-request call; the only call it may make is
  \<^verbatim>\<open>isConnected()\<close>.
\<close>

theorem disconnected_provider_returns_remote:
  assumes "pullRequests_enabled (config c)"
    and "has c (detailsMarkdownFormat (config c)) pull_request_fields"
    and "default_remote rs = Some remote" "provider remote = Some prov" "hasApi prov"
    and "maybeConnected prov = Some False
         \<or> maybeConnected prov = None \<and> isConnected c prov = Inr False"
  shows "snd (getPullRequestForCommit c rf rs) = Inr (Remote remote)
       \<and> filter pull_request_call (fst (getPullRequestForCommit c rf rs)) = []
       \<and> fst (getPullRequestForCommit c rf rs)
            = (if maybeConnected prov = None then [IsConnected prov] else [])"
  using assms(6) getPullRequestForCommit_open[OF assms(1-5), of rf] by auto

text \<open>A provider whose connection is unknown and turns out to be down.\<close>

theorem disconnected_provider_returns_remote_witness:
  "getPullRequestForCommit (example_container\<lparr>isConnected := (\<lambda>prov. Inr False)\<rparr>) ''abc123''
       [example_remote\<lparr>provider := Some (example_provider\<lparr>maybeConnected := None\<rparr>)\<rparr>]
     = ([IsConnected (example_provider\<lparr>maybeConnected := None\<rparr>)],
        Inr (Remote (example_remote\<lparr>provider := Some (example_provider\<lparr>maybeConnected := None\<rparr>)\<rparr>)))"
  using disconnected_provider_returns_remote[of "example_container\<lparr>isConnected := (\<lambda>prov. Inr False)\<rparr>"
      "[example_remote\<lparr>provider := Some (example_provider\<lparr>maybeConnected := None\<rparr>)\<rparr>]"
      "example_remote\<lparr>provider := Some (example_provider\<lparr>maybeConnected := None\<rparr>)\<rparr>"
      "example_provider\<lparr>maybeConnected := None\<rparr>" "''abc123''"]
  by (simp add: example_defs prod_eq_iff)

subsection \<open>The default remote\<close>

lemma getAutoLinkedIssues_default_remote:
  "default_remote rs = default_remote rs' \<Longrightarrow>
   getAutoLinkedIssues c msg rs = getAutoLinkedIssues c msg rs'"
  by (simp add: getAutoLinkedIssues_def)

lemma getPullRequestForCommit_default_remote:
  "default_remote rs = default_remote rs' \<Longrightarrow>
   getPullRequestForCommit c rf rs = getPullRequestForCommit c rf rs'"
  by (simp add: getPullRequestForCommit_def)

text \<open>
  C10. With no remote that is default and has a provider, both lookups return
  \<^verbatim>\<open>undefined\<close> and make no call. Otherwise the remote they use is the first such
  remote of the list, and both behave as on the list holding that remote alone. Removing
  every non-default remote from the list changes nothing.
\<close>

theorem only_default_remote_is_consulted:
  "(default_remote rs = None \<longrightarrow>
      getAutoLinkedIssues c msg rs = ([], Inr None)
      \<and> getPullRequestForCommit c rf rs = ([], Inr Undefined))
   \<and> (\<forall>r. default_remote rs = Some r \<longrightarrow>
        (\<exists>pre post. rs = pre @ r # post \<and> default r \<and> provider r \<noteq> None
           \<and> (\<forall>x\<in>set pre. \<not> (default x \<and> provider x \<noteq> None)))
        \<and> getAutoLinkedIssues c msg rs = getAutoLinkedIssues c msg [r]
        \<and> getPullRequestForCommit c rf rs = getPullRequestForCommit c rf [r])
   \<and> getAutoLinkedIssues c msg (filter default rs) = getAutoLinkedIssues c msg rs
   \<and> getPullRequestForCommit c rf (filter default rs) = getPullRequestForCommit c rf rs"
proof -
  have none: "getAutoLinkedIssues c msg rs = ([], Inr None)
      \<and> getPullRequestForCommit c rf rs = ([], Inr Undefined)"
    if "default_remote rs = None"
    using that by (simp add: getAutoLinkedIssues_def getPullRequestForCommit_def)
  have some: "(\<exists>pre post. rs = pre @ r # post \<and> default r \<and> provider r \<noteq> None
           \<and> (\<forall>x\<in>set pre. \<not> (default x \<and> provider x \<noteq> None)))
        \<and> getAutoLinkedIssues c msg rs = getAutoLinkedIssues c msg [r]
        \<and> getPullRequestForCommit c rf rs = getPullRequestForCommit c rf [r]"
    if r: "default_remote rs = Some r" for r
  proof -
    have d: "\<exists>pre post. rs = pre @ r # post \<and> default r \<and> provider r \<noteq> None
           \<and> (\<forall>x\<in>set pre. \<not> (default x \<and> provider x \<noteq> None))"
      using r by (rule default_remote_Some)
    then have "default_remote [r] = Some r" by (auto simp: default_remote_def)
    then have "default_remote rs = default_remote [r]" using r by simp
    then show ?thesis
      using d getAutoLinkedIssues_default_remote getPullRequestForCommit_default_remote by blast
  qed
  have f: "default_remote (filter default rs) = default_remote rs" by (rule default_remote_filter)
  show ?thesis
    using none some getAutoLinkedIssues_default_remote[OF f]
      getPullRequestForCommit_default_remote[OF f]
    by blast
qed

text \<open>
  A list with only a non-default remote; and a list where the default remote stands
  between a non-default remote and a second default one.
\<close>

theorem only_default_remote_is_consulted_witness:
  "getAutoLinkedIssues example_container ''fixes #1 #2''
       [example_remote\<lparr>remote_name := ''upstream'', default := False\<rparr>] = ([], Inr None)
   \<and> getPullRequestForCommit example_container ''abc123''
       [example_remote\<lparr>remote_name := ''upstream'', default := False\<rparr>] = ([], Inr Undefined)
   \<and> getPullRequestForCommit example_container ''abc123''
       [example_remote\<lparr>remote_name := ''upstream'', default := False\<rparr>, example_remote,
        example_remote\<lparr>remote_name := ''fork''\<rparr>]
     = getPullRequestForCommit example_container ''abc123'' [example_remote]"
  using only_default_remote_is_consulted[of
      "[example_remote\<lparr>remote_name := ''upstream'', default := False\<rparr>]"
      example_container "''fixes #1 #2''" "''abc123''"]
    only_default_remote_is_consulted[of
      "[example_remote\<lparr>remote_name := ''upstream'', default := False\<rparr>, example_remote,
        example_remote\<lparr>remote_name := ''fork''\<rparr>]"
      example_container "''fixes #1 #2''" "''abc123''"]
  by (simp add: example_defs)

end
